theory Spec2Isabelle
  imports Main "HOL-Library.Sublist"
begin

section \<open>Strings of the Python runtime\<close>

text \<open>
  A Python \<open>str\<close> is a sequence of code points: \<open>pystr\<close> is a list of natural numbers, one
  for each code point, so that \<open>length\<close> is Python's \<open>len\<close>. The text the clipboard
  delivers, and everything built from it (the dictionary's values, the console output, the
  file), has this type; it may hold any code point, a lone surrogate included. Text that
  the script itself spells out (its messages, the catalog, the file name) and text that it
  only compares or reports from its environment (the operator's line, the detail of a
  clipboard failure, the message of an encoding error) is written as a \<open>string\<close>, whose
  characters are the code points below 256; \<open>cps\<close> embeds it.
\<close>

type_synonym pystr = "nat list"

definition cps :: "string \<Rightarrow> pystr" where
  "cps s = map of_char s"

definition NL :: pystr where
  "NL = [10]"

definition sym_arrow :: pystr where
  \<comment> \<open>U+2192\<close>
  "sym_arrow = [8594]"

definition sym_pin :: pystr where
  \<comment> \<open>U+1F4CC\<close>
  "sym_pin = [128204]"

definition sym_skip :: pystr where
  \<comment> \<open>U+23ED U+FE0F\<close>
  "sym_skip = [9197, 65039]"

definition sym_check :: pystr where
  \<comment> \<open>U+2705\<close>
  "sym_check = [9989]"

definition sym_cross :: pystr where
  \<comment> \<open>U+274C\<close>
  "sym_cross = [10060]"

definition py_isspace :: "nat \<Rightarrow> bool" where
  \<comment> \<open>the code points \<open>str.strip()\<close> removes: U+0009 to U+000D, U+001C to U+001F, U+0020,
      U+0085, U+00A0, U+1680, U+2000 to U+200A, U+2028, U+2029, U+202F, U+205F, U+3000\<close>
  "py_isspace c \<longleftrightarrow> c \<in> set [9, 10, 11, 12, 13, 28, 29, 30, 31, 32, 133, 160, 5760,
      8192, 8193, 8194, 8195, 8196, 8197, 8198, 8199, 8200, 8201, 8202,
      8232, 8233, 8239, 8287, 12288]"

definition py_strip :: "pystr \<Rightarrow> pystr" where
  \<comment> \<open>\<open>s.strip()\<close>\<close>
  "py_strip s = rev (dropWhile py_isspace (rev (dropWhile py_isspace s)))"

definition lower_char :: "char \<Rightarrow> char" where
  \<comment> \<open>A to Z, and U+00C0 to U+00DE without the multiplication sign U+00D7, move up by 32\<close>
  "lower_char c =
     (let n = (of_char c :: nat)
      in if (65 \<le> n \<and> n \<le> 90) \<or> (192 \<le> n \<and> n \<le> 222 \<and> n \<noteq> 215)
         then char_of (n + 32) else c)"

definition py_lower :: "string \<Rightarrow> string" where
  \<comment> \<open>\<open>s.lower()\<close>, of a line of the operator\<close>
  "py_lower s = map lower_char s"

fun py_str :: "nat \<Rightarrow> string" where
  \<comment> \<open>\<open>str(n)\<close> of a non-negative integer\<close>
  "py_str n =
     (if n < 10 then [''0123456789'' ! n]
      else py_str (n div 10) @ [''0123456789'' ! (n mod 10)])"

declare py_str.simps [simp del]

definition hex4 :: "nat \<Rightarrow> string" where
  \<comment> \<open>the format \<open>{:04x}\<close> of a number below 65536\<close>
  "hex4 n =
     [''0123456789abcdef'' ! (n div 4096 mod 16), ''0123456789abcdef'' ! (n div 256 mod 16),
      ''0123456789abcdef'' ! (n div 16 mod 16), ''0123456789abcdef'' ! (n mod 16)]"

section \<open>The console's encoding\<close>

text \<open>
  The console is UTF-8 and strict: a text is written whole or, when it holds a surrogate
  (U+D800 to U+DFFF), not at all, and \<open>print\<close> raises \<open>UnicodeEncodeError\<close>. The error
  names the first run of surrogates: one character with its escape and its position, or
  the first and last position of a longer run.
\<close>

definition is_surrogate :: "nat \<Rightarrow> bool" where
  "is_surrogate c \<longleftrightarrow> 55296 \<le> c \<and> c \<le> 57343"

definition utf8_error :: "pystr \<Rightarrow> string" where
  \<comment> \<open>\<open>str(e)\<close> of the \<open>UnicodeEncodeError\<close> that encoding \<open>s\<close> raises\<close>
  "utf8_error s =
     (let start = length (takeWhile (\<lambda>c. \<not> is_surrogate c) s);
          run = takeWhile is_surrogate (drop start s)
      in [CHR 0x27] @ ''utf-8'' @ [CHR 0x27] @ '' codec can'' @ [CHR 0x27] @ ''t encode '' @
         (if length run = 1
          then ''character '' @ [CHR 0x27, CHR 0x5C] @ ''u'' @ hex4 (hd run) @ [CHR 0x27]
                 @ '' in position '' @ py_str start
          else ''characters in position '' @ py_str start @ ''-''
                 @ py_str (start + length run - 1))
         @ '': surrogates not allowed'')"

section \<open>The device catalog\<close>

definition BITWIG_DEVICES :: "string list" where
  "BITWIG_DEVICES =
     [''EQ+'',
      ''Polysynth'',
      ''Phase-4'',
      ''FM-4'',
      ''Sampler'',
      ''Delay+'',
      ''Compressor+'',
      ''Limiter'',
      ''Reverb'',
      ''Chorus'',
      ''Flanger'',
      ''Phaser'',
      ''Distortion'',
      ''Filter+'',
      ''Tool'',
      ''Poly Grid'',
      ''FX Grid'',
      ''Note Grid'',
      ''Polymer'',
      ''Drum Machine'',
      ''Audio Receiver'',
      ''Note Receiver'',
      ''HW Instrument'',
      ''Clip Launcher'']"

section \<open>The result dictionary and its JSON text\<close>

text \<open>
  A Python \<open>dict\<close> keeps its keys in insertion order, and \<open>json.dump\<close> writes them in
  that order: the dictionary is an association list. Assigning to a key that is present
  replaces its value in place; assigning to a new key appends it. The keys are device
  names, the values are trimmed clipboard texts.
\<close>

type_synonym pydict = "(string \<times> pystr) list"

fun dict_set :: "string \<Rightarrow> pystr \<Rightarrow> pydict \<Rightarrow> pydict" where
  \<comment> \<open>\<open>d[k] = v\<close>\<close>
  "dict_set k v [] = [(k, v)]"
| "dict_set k v ((k', v') # d) =
     (if k' = k then (k, v) # d else (k', v') # dict_set k v d)"

definition dict_keys :: "pydict \<Rightarrow> string list" where
  \<comment> \<open>\<open>list(d.keys())\<close>\<close>
  "dict_keys d = map fst d"

definition dict_values :: "pydict \<Rightarrow> pystr list" where
  \<comment> \<open>\<open>list(d.values())\<close>\<close>
  "dict_values d = map snd d"

definition json_escape_char :: "nat \<Rightarrow> pystr" where
  \<comment> \<open>\<open>ESCAPE_DCT\<close> and the \<open>\uXXXX\<close> fallback of \<open>json.encoder\<close> under \<open>ensure_ascii\<close>;
      a code point from U+10000 on is written as its surrogate pair\<close>
  "json_escape_char c =
     (if c = 92 then cps [CHR 0x5C, CHR 0x5C]
      else if c = 34 then cps [CHR 0x5C, CHR 0x22]
      else if c = 8 then cps [CHR 0x5C, CHR ''b'']
      else if c = 12 then cps [CHR 0x5C, CHR ''f'']
      else if c = 10 then cps [CHR 0x5C, CHR ''n'']
      else if c = 13 then cps [CHR 0x5C, CHR ''r'']
      else if c = 9 then cps [CHR 0x5C, CHR ''t'']
      else if 32 \<le> c \<and> c \<le> 126 then [c]
      else if c < 65536 then cps ([CHR 0x5C, CHR ''u''] @ hex4 c)
      else cps ([CHR 0x5C, CHR ''u''] @ hex4 (55296 + (c - 65536) div 1024 mod 1024) @
                [CHR 0x5C, CHR ''u''] @ hex4 (56320 + (c - 65536) mod 1024)))"

definition py_encode_basestring_ascii :: "pystr \<Rightarrow> pystr" where
  "py_encode_basestring_ascii s = [34] @ concat (map json_escape_char s) @ [34]"

fun join :: "pystr \<Rightarrow> pystr list \<Rightarrow> pystr" where
  \<comment> \<open>\<open>sep.join(xs)\<close>\<close>
  "join sep [] = []"
| "join sep [x] = x"
| "join sep (x # y # ys) = x @ sep @ join sep (y # ys)"

definition json_item :: "string \<times> pystr \<Rightarrow> pystr" where
  \<comment> \<open>one member: the key, the key separator \<open>: \<close>, the value\<close>
  "json_item kv =
     py_encode_basestring_ascii (cps (fst kv)) @ cps '': '' @ py_encode_basestring_ascii (snd kv)"

definition json_dumps :: "pydict \<Rightarrow> pystr" where
  \<comment> \<open>\<open>json.dumps(d, indent=2)\<close> of a dictionary from \<open>str\<close> to \<open>str\<close>: an empty one is
      \<open>{}\<close>; otherwise every member stands on a line of its own behind two spaces, the
      item separator is a comma, and the closing brace is on its own line\<close>
  "json_dumps d =
     (if d = [] then cps ''{}''
      else cps ''{'' @ NL @ cps ''  '' @ join (cps '','' @ NL @ cps ''  '') (map json_item d)
             @ NL @ cps ''}'')"

section \<open>The world the script runs in\<close>

text \<open>
  The console, the clipboard and the file system are explicit state. \<open>stdin\<close> holds the
  lines the operator will still type (without their line terminators); \<open>clipboard n\<close>
  is the outcome of the \<open>n\<close>-th call of \<open>pyperclip.paste()\<close> (counted from 0) and
  \<open>pastes\<close> counts the calls made so far; \<open>stdout\<close> is the text written to the console;
  \<open>files\<close> maps a path to the content of the file there. Opening the output file for
  writing is taken to succeed, and the operator does not interrupt the process. The
  exceptions left are \<open>EOFError\<close>, raised by \<open>input\<close> when the operator's lines have run
  out, \<open>UnicodeEncodeError\<close>, raised by \<open>print\<close>, and the exception of a failed clipboard
  read; each carries its \<open>str\<close>.
\<close>

datatype exn =
    EOFError
  | UnicodeEncodeError string
  | Exception string

fun exn_str :: "exn \<Rightarrow> string" where
  \<comment> \<open>\<open>str(e)\<close>\<close>
  "exn_str EOFError = []"
| "exn_str (UnicodeEncodeError m) = m"
| "exn_str (Exception m) = m"

datatype clip =
    Text pystr       \<comment> \<open>\<open>paste()\<close> returns this text\<close>
  | Failure string   \<comment> \<open>\<open>paste()\<close> raises an \<open>Exception\<close> \<open>e\<close> with this \<open>str(e)\<close>\<close>

record world =
  stdin :: "string list"
  clipboard :: "nat \<Rightarrow> clip"
  pastes :: nat
  stdout :: pystr
  files :: "string \<rightharpoonup> pystr"

definition py_print :: "pystr \<Rightarrow> world \<Rightarrow> (exn + unit) \<times> world" where
  \<comment> \<open>\<open>print(s)\<close>\<close>
  "py_print s w =
     (if list_ex is_surrogate s then (Inl (UnicodeEncodeError (utf8_error s)), w)
      else (Inr (), w\<lparr>stdout := stdout w @ s @ NL\<rparr>))"

fun py_prints :: "pystr list \<Rightarrow> world \<Rightarrow> (exn + unit) \<times> world" where
  \<comment> \<open>consecutive \<open>print\<close> statements: the first exception ends them\<close>
  "py_prints [] w = (Inr (), w)"
| "py_prints (s # ss) w =
     (case py_print s w of
        (Inl e, w) \<Rightarrow> (Inl e, w)
      | (Inr _, w) \<Rightarrow> py_prints ss w)"

definition py_input :: "string \<Rightarrow> world \<Rightarrow> (exn + string) \<times> world" where
  \<comment> \<open>\<open>input(prompt)\<close>: writes the prompt, then reads a line; at the end of the input it
      raises \<open>EOFError\<close>\<close>
  "py_input prompt w =
     (let w' = w\<lparr>stdout := stdout w @ cps prompt\<rparr>
      in case stdin w of
           [] \<Rightarrow> (Inl EOFError, w')
         | l # ls \<Rightarrow> (Inr l, w'\<lparr>stdin := ls\<rparr>))"

definition pyperclip_paste :: "world \<Rightarrow> clip \<times> world" where
  "pyperclip_paste w = (clipboard w (pastes w), w\<lparr>pastes := Suc (pastes w)\<rparr>)"

definition file_write :: "string \<Rightarrow> pystr \<Rightarrow> world \<Rightarrow> world" where
  \<comment> \<open>\<open>with open(path, 'w') as f: f.write(text)\<close>: the file is truncated, then written\<close>
  "file_write path text w = w\<lparr>files := (files w)(path \<mapsto> text)\<rparr>"

section \<open>The script\<close>

definition output_file :: string where
  "output_file = ''bitwig_device_uuids.json''"

definition prologue :: "world \<Rightarrow> (exn + unit) \<times> world" where
  \<comment> \<open>the banner and the wait for Enter, up to the creation of the dictionary\<close>
  "prologue w =
     (case py_prints
             [cps ''Bitwig Device UUID Extractor'',
              cps (replicate 50 (CHR ''='')),
              cps ''This script requires manual interaction:'',
              cps ''1. Open Bitwig Studio'',
              cps ''2. Create a new project'',
              cps ''3. For each device, add it to a track'',
              cps ''4. Right-click the device '' @ sym_arrow @ cps '' Copy Device ID'',
              cps ''5. The UUID will be automatically captured'',
              [],
              cps ''Press Enter when ready to start...''] w of
        (Inl e, w) \<Rightarrow> (Inl e, w)
      | (Inr _, w) \<Rightarrow>
          (case py_input [] w of
             (Inl e, w) \<Rightarrow> (Inl e, w)
           | (Inr _, w) \<Rightarrow> (Inr (), w)))"

definition valid_uuid :: "pystr \<Rightarrow> bool" where
  \<comment> \<open>the guard \<open>uuid and len(uuid) == 36\<close>\<close>
  "valid_uuid uuid \<longleftrightarrow> uuid \<noteq> [] \<and> length uuid = 36"

definition instructions :: "string \<Rightarrow> world \<Rightarrow> (exn + unit) \<times> world" where
  \<comment> \<open>the four lines printed at the head of the loop body\<close>
  "instructions device_name w =
     py_prints
       [NL @ sym_pin @ cps '' Device: '' @ cps device_name,
        cps ''   1. Add '' @ cps [CHR 0x27] @ cps device_name @ cps [CHR 0x27]
          @ cps '' to a track in Bitwig'',
        cps ''   2. Right-click on it '' @ sym_arrow @ cps '' '' @ cps [CHR 0x27]
          @ cps ''Copy Device ID'' @ cps [CHR 0x27],
        cps ''   3. Press Enter when done (or '' @ cps [CHR 0x27] @ cps ''s''
          @ cps [CHR 0x27] @ cps '' to skip)''] w"

definition try_block :: "string \<Rightarrow> pydict \<Rightarrow> world \<Rightarrow> (exn + unit) \<times> pydict \<times> world" where
  \<comment> \<open>the statements under \<open>try\<close>: the clipboard read, the check, the assignment and the
      two reports. An exception leaves them at once; the dictionary stays as it is at
      that moment\<close>
  "try_block device_name device_uuids w =
     (case pyperclip_paste w of
        (Failure e, w) \<Rightarrow> (Inl (Exception e), device_uuids, w)
      | (Text t, w) \<Rightarrow>
          (let uuid = py_strip t
           in if valid_uuid uuid then
                (let device_uuids = dict_set device_name uuid device_uuids
                 in case py_print (cps ''   '' @ sym_check @ cps '' Captured: '' @ uuid) w of
                      (Inl e, w) \<Rightarrow> (Inl e, device_uuids, w)
                    | (Inr _, w) \<Rightarrow> (Inr (), device_uuids, w))
              else
                (case py_print (cps ''   '' @ sym_cross @ cps '' Invalid UUID format: '' @ uuid) w of
                   (Inl e, w) \<Rightarrow> (Inl e, device_uuids, w)
                 | (Inr _, w) \<Rightarrow> (Inr (), device_uuids, w))))"

definition loop_body :: "string \<Rightarrow> pydict \<Rightarrow> world \<Rightarrow> (exn + pydict) \<times> world" where
  \<comment> \<open>one pass through the body of the \<open>for\<close> loop; \<open>Inr\<close> is the dictionary with which the
      loop goes on, \<open>Inl\<close> an exception that leaves the loop\<close>
  "loop_body device_name device_uuids w =
     (case instructions device_name w of
        (Inl e, w) \<Rightarrow> (Inl e, w)
      | (Inr _, w) \<Rightarrow>
          (case py_input ''   > '' w of
             (Inl e, w) \<Rightarrow> (Inl e, w)
           | (Inr user_input, w) \<Rightarrow>
               if py_lower user_input = ''s'' then
                 (case py_print (cps ''   '' @ sym_skip @ cps ''  Skipped '' @ cps device_name) w of
                    (Inl e, w) \<Rightarrow> (Inl e, w)
                  | (Inr _, w) \<Rightarrow> (Inr device_uuids, w))
               else
                 (case try_block device_name device_uuids w of
                    (Inr _, device_uuids, w) \<Rightarrow> (Inr device_uuids, w)
                  | (Inl e, device_uuids, w) \<Rightarrow>
                      \<comment> \<open>\<open>except Exception as e\<close>\<close>
                      (case py_print (cps ''   '' @ sym_cross @ cps '' Error reading clipboard: ''
                                        @ cps (exn_str e)) w of
                         (Inl e, w) \<Rightarrow> (Inl e, w)
                       | (Inr _, w) \<Rightarrow> (Inr device_uuids, w)))))"

fun for_loop :: "string list \<Rightarrow> pydict \<Rightarrow> world \<Rightarrow> (exn + pydict) \<times> world" where
  \<comment> \<open>\<open>for device_name in names: ...\<close>\<close>
  "for_loop [] device_uuids w = (Inr device_uuids, w)"
| "for_loop (device_name # names) device_uuids w =
     (case loop_body device_name device_uuids w of
        (Inl e, w) \<Rightarrow> (Inl e, w)
      | (Inr device_uuids, w) \<Rightarrow> for_loop names device_uuids w)"

definition epilogue :: "pydict \<Rightarrow> world \<Rightarrow> (exn + unit) \<times> world" where
  \<comment> \<open>saving the dictionary and echoing it, after the loop\<close>
  "epilogue device_uuids w =
     py_prints
       [NL @ sym_check @ cps '' Saved '' @ cps (py_str (length device_uuids))
          @ cps '' UUIDs to '' @ cps output_file,
        json_dumps device_uuids]
       (file_write output_file (json_dumps device_uuids) w)"

definition collect :: "world \<Rightarrow> (exn + pydict) \<times> world" where
  \<comment> \<open>\<open>main\<close> up to the end of the loop: the dictionary as it is when the loop is left\<close>
  "collect w =
     (case prologue w of
        (Inl e, w) \<Rightarrow> (Inl e, w)
      | (Inr _, w) \<Rightarrow> for_loop BITWIG_DEVICES [] w)"

definition main :: "world \<Rightarrow> (exn + unit) \<times> world" where
  "main w =
     (case collect w of
        (Inl e, w) \<Rightarrow> (Inl e, w)
      | (Inr device_uuids, w) \<Rightarrow> epilogue device_uuids w)"

section \<open>The format check as the specification words it\<close>

definition length_is_36 :: "pystr \<Rightarrow> bool" where
  "length_is_36 s \<longleftrightarrow> length s = 36"

section \<open>What a JSON string literal denotes\<close>

text \<open>
  The reading side of JSON, for stating what the written file says: a string literal
  stands between two quotation marks, holds no raw quotation mark or control character,
  and each escape in it denotes one UTF-16 code unit. \<open>utf16\<close> is the text as UTF-16 code
  units: a code point from U+10000 on is its surrogate pair, any other is itself.
\<close>

definition utf16_char :: "nat \<Rightarrow> nat list" where
  "utf16_char c =
     (if c < 65536 then [c]
      else [55296 + (c - 65536) div 1024 mod 1024, 56320 + (c - 65536) mod 1024])"

definition utf16 :: "pystr \<Rightarrow> nat list" where
  "utf16 s = concat (map utf16_char s)"

definition hex_value :: "nat \<Rightarrow> nat option" where
  \<comment> \<open>the value of a hexadecimal digit\<close>
  "hex_value c =
     (if 48 \<le> c \<and> c \<le> 57 then Some (c - 48)
      else if 97 \<le> c \<and> c \<le> 102 then Some (c - 87)
      else if 65 \<le> c \<and> c \<le> 70 then Some (c - 55)
      else None)"

definition escape_value :: "nat \<Rightarrow> nat option" where
  \<comment> \<open>what the character after a backslash denotes, \<open>u\<close> apart\<close>
  "escape_value c =
     (if c = 34 then Some 34
      else if c = 92 then Some 92
      else if c = 47 then Some 47
      else if c = 98 then Some 8
      else if c = 102 then Some 12
      else if c = 110 then Some 10
      else if c = 114 then Some 13
      else if c = 116 then Some 9
      else None)"

fun json_unescape :: "pystr \<Rightarrow> nat list option" where
  \<comment> \<open>the code units that the inside of a string literal denotes\<close>
  "json_unescape [] = Some []"
| "json_unescape (c # cs) =
     (if c = 92 then
        (case cs of
           [] \<Rightarrow> None
         | e # es \<Rightarrow>
             if e = 117 then
               (case es of
                  h1 # h2 # h3 # h4 # rest \<Rightarrow>
                    (case (hex_value h1, hex_value h2, hex_value h3, hex_value h4) of
                       (Some a, Some b, Some c, Some d) \<Rightarrow>
                         map_option ((#) (4096 * a + 256 * b + 16 * c + d)) (json_unescape rest)
                     | _ \<Rightarrow> None)
                | _ \<Rightarrow> None)
             else
               (case escape_value e of
                  None \<Rightarrow> None
                | Some v \<Rightarrow> map_option ((#) v) (json_unescape es)))
      else if c = 34 \<or> c < 32 then None
      else map_option ((#) c) (json_unescape cs))"

definition json_string_units :: "pystr \<Rightarrow> nat list option" where
  \<comment> \<open>the code units that a string literal, quotation marks included, denotes\<close>
  "json_string_units s =
     (case s of
        [] \<Rightarrow> None
      | q # r \<Rightarrow>
          if q = 34 \<and> r \<noteq> [] \<and> last r = 34 then json_unescape (butlast r) else None)"

section \<open>The text of the output file, written out\<close>

text \<open>
  The JSON text of a dictionary whose keys need no escaping, character by character: an
  empty dictionary is the two braces; otherwise the opening brace ends the first line,
  every member stands on a line of its own behind two spaces, as the key in quotation
  marks, a colon, a space and the value's string literal, a comma follows every member but
  the last, and the closing brace stands on the last line. U+000A ends a line.
\<close>

abbreviation indented_json :: "pydict \<Rightarrow> pystr" where
  "indented_json d \<equiv>
     (case d of
        [] \<Rightarrow> cps ''{}''
      | kv # rest \<Rightarrow>
          cps ''{'' @ [10] @ cps ''  '' @ [34] @ cps (fst kv) @ [34] @ cps '': ''
            @ py_encode_basestring_ascii (snd kv)
          @ concat (map (\<lambda>kv. cps '','' @ [10] @ cps ''  '' @ [34] @ cps (fst kv) @ [34] @ cps '': ''
                                 @ py_encode_basestring_ascii (snd kv)) rest)
          @ [10] @ cps ''}'')"

section \<open>Sample sessions\<close>

text \<open>
  Concrete worlds on which the theorems below are exercised: the operator's lines, and a
  clipboard that yields the listed outcomes in turn and is empty afterwards.
\<close>

definition clip_seq :: "clip list \<Rightarrow> nat \<Rightarrow> clip" where
  "clip_seq cs n = (if n < length cs then cs ! n else Text [])"

definition session :: "string list \<Rightarrow> clip list \<Rightarrow> world" where
  "session lines clips =
     \<lparr>stdin = lines, clipboard = clip_seq clips, pastes = 0, stdout = [], files = Map.empty\<rparr>"

definition uuid1 :: pystr where
  "uuid1 = cps ''123e4567-e89b-12d3-a456-426614174000''"

definition uuid2 :: pystr where
  "uuid2 = cps ''0815c0de-aaaa-bbbb-cccc-1234567890ab''"

definition padded_uuid1 :: pystr where
  "padded_uuid1 = cps ''  '' @ uuid1 @ NL"

definition lone_surrogate_uuid :: pystr where
  \<comment> \<open>36 code points, the first of them the lone surrogate U+DC80\<close>
  "lone_surrogate_uuid = 56448 # cps ''23e4567-e89b-12d3-a456-426614174000''"

definition lone_surrogate_text :: pystr where
  \<comment> \<open>5 code points, the first of them the lone surrogate U+DC80\<close>
  "lone_surrogate_text = 56448 # cps ''oops''"

definition sample_lines :: "string list" where
  \<comment> \<open>Enter to start; then one line for each of the 24 devices\<close>
  "sample_lines =
     ['''',
      ''go'', ''s'', ''x'', '''', ''S'', ''s '',
      ''s'', ''s'', ''s'', ''s'', ''s'', ''s'',
      ''s'', ''s'', ''s'', ''s'', ''s'', ''s'',
      ''s'', ''s'', ''s'', ''s'', ''s'', ''s'']"

definition sample_clips :: "clip list" where
  "sample_clips =
     [Text padded_uuid1, Text (cps ''not a uuid''), Failure ''no clipboard mechanism'',
      Text uuid2]"

definition second_lines :: "string list" where
  \<comment> \<open>a second session: only the second device is captured\<close>
  "second_lines =
     ['''',
      ''s'', ''y'', ''s'', ''s'', ''s'', ''s'',
      ''s'', ''s'', ''s'', ''s'', ''s'', ''s'',
      ''s'', ''s'', ''s'', ''s'', ''s'', ''s'',
      ''s'', ''s'', ''s'', ''s'', ''s'', ''s'']"

definition second_clips :: "clip list" where
  "second_clips = [Text uuid2]"

section \<open>Texts the console can encode\<close>

lemma cps_simps [simp]:
  "length (cps s) = length s"
  "cps [] = []"
  "cps (s @ t) = cps s @ cps t"
  by (simp_all add: cps_def)

lemma of_char_no_surrogate: "\<not> is_surrogate (of_char c)"
proof -
  have "(of_char c :: nat) < 256"
    by simp
  then show ?thesis
    unfolding is_surrogate_def by linarith
qed

lemma cps_encodable [simp]: "\<not> list_ex is_surrogate (cps s)"
  by (simp add: cps_def list_ex_iff of_char_no_surrogate)

lemma symbols_encodable [simp]:
  "\<not> list_ex is_surrogate NL" "\<not> list_ex is_surrogate sym_arrow"
  "\<not> list_ex is_surrogate sym_pin" "\<not> list_ex is_surrogate sym_skip"
  "\<not> list_ex is_surrogate sym_check" "\<not> list_ex is_surrogate sym_cross"
  by (simp_all add: NL_def sym_arrow_def sym_pin_def sym_skip_def sym_check_def sym_cross_def
      is_surrogate_def)

lemma py_print_encodable:
  "\<not> list_ex is_surrogate s \<Longrightarrow> py_print s w = (Inr (), w\<lparr>stdout := stdout w @ s @ NL\<rparr>)"
  by (simp add: py_print_def)

lemma py_print_surrogate:
  "list_ex is_surrogate s \<Longrightarrow> py_print s w = (Inl (UnicodeEncodeError (utf8_error s)), w)"
  by (simp add: py_print_def)

lemma py_print_fields [simp]:
  "stdin (snd (py_print s w)) = stdin w"
  "clipboard (snd (py_print s w)) = clipboard w"
  "pastes (snd (py_print s w)) = pastes w"
  "files (snd (py_print s w)) = files w"
  by (simp_all add: py_print_def)

lemma py_prints_fields [simp]:
  "stdin (snd (py_prints ss w)) = stdin w"
  "clipboard (snd (py_prints ss w)) = clipboard w"
  "pastes (snd (py_prints ss w)) = pastes w"
  "files (snd (py_prints ss w)) = files w"
  by (induction ss arbitrary: w; simp add: py_print_def split: prod.split sum.split)+

lemma py_prints_encodable:
  "\<forall>s \<in> set ss. \<not> list_ex is_surrogate s \<Longrightarrow>
     py_prints ss w = (Inr (), w\<lparr>stdout := stdout w @ concat (map (\<lambda>s. s @ NL) ss)\<rparr>)"
  by (induction ss arbitrary: w) (simp_all add: py_print_def)

declare py_prints.simps [simp del]

lemma ascii_encodable: "\<forall>c \<in> set s. c < 128 \<Longrightarrow> \<not> list_ex is_surrogate s"
  by (auto simp: list_ex_iff is_surrogate_def)

lemma hex4_ascii: "\<forall>c \<in> set (cps (hex4 n)). c < 128"
proof -
  have "\<forall>c \<in> set ''0123456789abcdef''. (of_char c :: nat) < 128"
    by simp
  moreover have "''0123456789abcdef'' ! (m mod 16) \<in> set ''0123456789abcdef''" for m :: nat
    by (rule nth_mem) simp
  ultimately have "(of_char (''0123456789abcdef'' ! (m mod 16)) :: nat) < 128" for m
    by blast
  then show ?thesis
    by (simp add: hex4_def cps_def)
qed

lemma json_escape_char_ascii: "\<forall>x \<in> set (json_escape_char c). x < 128"
  using hex4_ascii by (auto simp: json_escape_char_def cps_def)

lemma py_encode_ascii: "\<forall>x \<in> set (py_encode_basestring_ascii s). x < 128"
  using json_escape_char_ascii by (auto simp: py_encode_basestring_ascii_def)

lemma join_set: "set (join sep xs) \<subseteq> set sep \<union> \<Union> (set ` set xs)"
  by (induction sep xs rule: join.induct) auto

lemma cps_ascii_literals:
  "\<forall>x \<in> set (cps ''{}''). x < 128" "\<forall>x \<in> set (cps ''{''). x < 128"
  "\<forall>x \<in> set (cps ''}''). x < 128" "\<forall>x \<in> set (cps ''  ''). x < 128"
  "\<forall>x \<in> set (cps '',''). x < 128" "\<forall>x \<in> set (cps '': ''). x < 128"
  "\<forall>x \<in> set NL. x < 128"
  by (simp_all add: cps_def NL_def)

lemma json_item_ascii: "\<forall>x \<in> set (json_item kv). x < 128"
  using py_encode_ascii cps_ascii_literals by (auto simp: json_item_def)

lemma json_dumps_ascii: "\<forall>x \<in> set (json_dumps d). x < 128"
proof (cases "d = []")
  case True
  then show ?thesis
    using cps_ascii_literals by (simp add: json_dumps_def)
next
  case False
  have "\<forall>x \<in> set (join (cps '','' @ NL @ cps ''  '') (map json_item d)). x < 128"
  proof
    fix x
    assume "x \<in> set (join (cps '','' @ NL @ cps ''  '') (map json_item d))"
    with join_set [of "cps '','' @ NL @ cps ''  ''" "map json_item d"]
    have "x \<in> set (cps '','' @ NL @ cps ''  '') \<or> (\<exists>kv \<in> set d. x \<in> set (json_item kv))"
      by auto
    then show "x < 128"
      using json_item_ascii cps_ascii_literals by auto
  qed
  with False show ?thesis
    using cps_ascii_literals by (auto simp: json_dumps_def)
qed

lemma json_dumps_encodable [simp]: "\<not> list_ex is_surrogate (json_dumps d)"
  by (rule ascii_encodable) (rule json_dumps_ascii)

section \<open>What each operation does to the world\<close>

lemma case_exn_pair:
  "(case p of (Inl e, w) \<Rightarrow> f e w | (Inr x, w) \<Rightarrow> g x w) =
   (case fst p of Inl e \<Rightarrow> f e (snd p) | Inr x \<Rightarrow> g x (snd p))"
  by (cases p) (simp split: sum.split)

lemma instructions_returns [simp]: "fst (instructions n w) = Inr ()"
  by (simp add: instructions_def py_prints_encodable)

lemma instructions_fields [simp]:
  "stdin (snd (instructions n w)) = stdin w"
  "clipboard (snd (instructions n w)) = clipboard w"
  "pastes (snd (instructions n w)) = pastes w"
  "files (snd (instructions n w)) = files w"
  by (simp_all add: instructions_def)

lemma py_input_fst:
  "fst (py_input p w) = (case stdin w of [] \<Rightarrow> Inl EOFError | l # ls \<Rightarrow> Inr l)"
  by (simp add: py_input_def Let_def split: list.split)

lemma py_input_fields [simp]:
  "stdin (snd (py_input p w)) = tl (stdin w)"
  "clipboard (snd (py_input p w)) = clipboard w"
  "pastes (snd (py_input p w)) = pastes w"
  "files (snd (py_input p w)) = files w"
  "stdout (snd (py_input p w)) = stdout w @ cps p"
  by (simp_all add: py_input_def Let_def split: list.split)

lemma prologue_fst:
  "fst (prologue w) = (case stdin w of [] \<Rightarrow> Inl EOFError | l # ls \<Rightarrow> Inr ())"
  by (simp add: prologue_def py_prints_encodable py_input_def Let_def split: list.split)

lemma prologue_fields [simp]:
  "stdin (snd (prologue w)) = tl (stdin w)"
  "clipboard (snd (prologue w)) = clipboard w"
  "pastes (snd (prologue w)) = pastes w"
  "files (snd (prologue w)) = files w"
  by (simp_all add: prologue_def py_prints_encodable py_input_def Let_def split: list.split)

text \<open>
  The body, taken apart: after the instructions and the prompt, what the body returns and
  what it leaves on the console.
\<close>

lemma loop_body_fst:
  "fst (loop_body n d w) =
     (case stdin w of
        [] \<Rightarrow> Inl EOFError
      | l # ls \<Rightarrow>
          if py_lower l = ''s'' then Inr d
          else (case clipboard w (pastes w) of
                  Text t \<Rightarrow> if valid_uuid (py_strip t) then Inr (dict_set n (py_strip t) d) else Inr d
                | Failure e \<Rightarrow> Inr d))"
  by (simp add: loop_body_def case_exn_pair py_input_fst try_block_def pyperclip_paste_def
      py_print_def Let_def split: list.split clip.split)

lemma loop_body_fields [simp]:
  "stdin (snd (loop_body n d w)) = tl (stdin w)"
  "clipboard (snd (loop_body n d w)) = clipboard w"
  "files (snd (loop_body n d w)) = files w"
  by (simp_all add: loop_body_def case_exn_pair py_input_fst try_block_def pyperclip_paste_def
      py_print_def Let_def split: list.split clip.split)

lemma loop_body_pastes:
  "pastes (snd (loop_body n d w)) =
     (case stdin w of
        [] \<Rightarrow> pastes w
      | l # ls \<Rightarrow> if py_lower l = ''s'' then pastes w else Suc (pastes w))"
  by (simp add: loop_body_def case_exn_pair py_input_fst try_block_def pyperclip_paste_def
      py_print_def Let_def split: list.split clip.split)

lemma loop_body_stdout:
  "stdout (snd (loop_body n d w)) =
     stdout (snd (instructions n w)) @ cps ''   > '' @
     (case stdin w of
        [] \<Rightarrow> []
      | l # ls \<Rightarrow>
          if py_lower l = ''s'' then cps ''   '' @ sym_skip @ cps ''  Skipped '' @ cps n @ NL
          else (case clipboard w (pastes w) of
                  Text t \<Rightarrow>
                    (let line =
                       (if valid_uuid (py_strip t)
                        then cps ''   '' @ sym_check @ cps '' Captured: '' @ py_strip t
                        else cps ''   '' @ sym_cross @ cps '' Invalid UUID format: '' @ py_strip t)
                     in if list_ex is_surrogate (py_strip t)
                        then cps ''   '' @ sym_cross @ cps '' Error reading clipboard: ''
                               @ cps (utf8_error line) @ NL
                        else line @ NL)
                | Failure e \<Rightarrow>
                    cps ''   '' @ sym_cross @ cps '' Error reading clipboard: '' @ cps e @ NL))"
  by (simp add: loop_body_def case_exn_pair py_input_fst try_block_def pyperclip_paste_def
      py_print_def Let_def split: list.split clip.split)

lemma for_loop_Cons:
  "for_loop (n # ns) d w =
     (case fst (loop_body n d w) of
        Inl e \<Rightarrow> (Inl e, snd (loop_body n d w))
      | Inr d' \<Rightarrow> for_loop ns d' (snd (loop_body n d w)))"
  by (cases "loop_body n d w") (simp split: sum.split)

declare for_loop.simps(2) [simp del]

lemma for_loop_fields [simp]:
  "clipboard (snd (for_loop ns d w)) = clipboard w"
  "files (snd (for_loop ns d w)) = files w"
  by (induction ns arbitrary: d w) (simp_all add: for_loop_Cons split: sum.split)

lemma collect_fst:
  "fst (collect w) =
     (case fst (prologue w) of
        Inl e \<Rightarrow> Inl e
      | Inr u \<Rightarrow> fst (for_loop BITWIG_DEVICES [] (snd (prologue w))))"
  by (cases "prologue w") (simp add: collect_def split: sum.split)

lemma char_eq_code: "c = d \<longleftrightarrow> (of_char c :: nat) = of_char d"
  by (simp only: of_char_eq_iff)

lemma lower_char_s: "lower_char c = CHR ''s'' \<longleftrightarrow> c = CHR ''s'' \<or> c = CHR ''S''"
proof -
  define n where "n = (of_char c :: nat)"
  have s: "c = CHR ''s'' \<longleftrightarrow> n = 115" and S: "c = CHR ''S'' \<longleftrightarrow> n = 83"
    unfolding n_def by (subst char_eq_code, simp)+
  show ?thesis
  proof (cases "(65 \<le> n \<and> n \<le> 90) \<or> (192 \<le> n \<and> n \<le> 222 \<and> n \<noteq> 215)")
    case True
    then have "lower_char c = char_of (n + 32)"
      by (auto simp add: lower_char_def n_def Let_def)
    moreover from True have "char_of (n + 32) = CHR ''s'' \<longleftrightarrow> n = 83"
      by (auto simp: char_of_eq_iff take_bit_eq_mod)
    ultimately show ?thesis
      using True s S by auto
  next
    case False
    then have "lower_char c = c"
      by (auto simp add: lower_char_def n_def Let_def)
    then show ?thesis
      using False s S by auto
  qed
qed

lemma py_lower_eq_s: "py_lower l = ''s'' \<longleftrightarrow> l = ''s'' \<or> l = ''S''"
proof (cases l)
  case Nil
  then show ?thesis by (simp add: py_lower_def)
next
  case (Cons c cs)
  then show ?thesis
    by (cases cs) (auto simp: py_lower_def lower_char_s)
qed

lemma session_fields [simp]:
  "stdin (session ls cs) = ls"
  "clipboard (session ls cs) = clip_seq cs"
  "pastes (session ls cs) = 0"
  "stdout (session ls cs) = []"
  "files (session ls cs) = Map.empty"
  by (simp_all add: session_def)

lemma uuid_lengths: "length uuid1 = 36" "length uuid2 = 36" "uuid1 \<noteq> []" "uuid2 \<noteq> []"
  by (simp_all add: uuid1_def uuid2_def cps_def)

lemma sample_strips:
  "py_strip padded_uuid1 = uuid1" "py_strip uuid2 = uuid2"
  "py_strip (cps ''not a uuid'') = cps ''not a uuid''"
  by (simp_all add: py_strip_def py_isspace_def padded_uuid1_def uuid1_def uuid2_def NL_def cps_def)

lemma sample_collect:
  "fst (collect (session sample_lines sample_clips)) = Inr [(''EQ+'', uuid1), (''Delay+'', uuid2)]"
  by (simp add: collect_fst prologue_fst BITWIG_DEVICES_def for_loop_Cons loop_body_fst
      loop_body_pastes sample_lines_def sample_clips_def clip_seq_def py_lower_eq_s
      sample_strips valid_uuid_def uuid_lengths)

section \<open>The loop\<close>

lemma for_loop_append:
  "for_loop (xs @ ys) d w =
     (case fst (for_loop xs d w) of
        Inl e \<Rightarrow> (Inl e, snd (for_loop xs d w))
      | Inr d' \<Rightarrow> for_loop ys d' (snd (for_loop xs d w)))"
  by (induction xs arbitrary: d w) (simp_all add: for_loop_Cons split: sum.split)

lemma loop_body_result:
  assumes "fst (loop_body n d w) = Inr d'"
  shows "d' = d \<or> (\<exists>u. length u = 36 \<and> d' = dict_set n u d)"
  using assms
  by (auto simp: loop_body_fst valid_uuid_def split: list.splits if_splits clip.splits)

lemma loop_body_returns_iff:
  "(\<exists>d'. fst (loop_body n d w) = Inr d') \<longleftrightarrow> stdin w \<noteq> []"
  by (cases "stdin w"; cases "clipboard w (pastes w)"; simp add: loop_body_fst)

lemma loop_body_raises_iff:
  "(\<exists>e. fst (loop_body n d w) = Inl e) \<longleftrightarrow> stdin w = []"
  by (cases "stdin w"; cases "clipboard w (pastes w)"; simp add: loop_body_fst)

lemma for_loop_stdin:
  "stdin (snd (for_loop ns d w)) = drop (length ns) (stdin w)"
proof (induction ns arbitrary: d w)
  case Nil
  then show ?case by simp
next
  case (Cons n ns)
  show ?case
  proof (cases "stdin w")
    case Nil
    then show ?thesis
      by (simp add: for_loop_Cons loop_body_fst)
  next
    case (Cons l ls)
    then show ?thesis
      using loop_body_raises_iff [of n d w]
      by (simp add: for_loop_Cons Cons.IH split: sum.split)
  qed
qed

lemma for_loop_returns_iff:
  "(\<exists>d'. fst (for_loop ns d w) = Inr d') \<longleftrightarrow> length ns \<le> length (stdin w)"
proof (induction ns arbitrary: d w)
  case Nil
  then show ?case by simp
next
  case (Cons n ns)
  show ?case
  proof (cases "stdin w")
    case Nil
    then show ?thesis
      by (simp add: for_loop_Cons loop_body_fst)
  next
    case c: (Cons l ls)
    then obtain d1 where d1: "fst (loop_body n d w) = Inr d1"
      using loop_body_returns_iff [of n d w] by auto
    have "(\<exists>d'. fst (for_loop (n # ns) d w) = Inr d') \<longleftrightarrow>
          (\<exists>d'. fst (for_loop ns d1 (snd (loop_body n d w))) = Inr d')"
      by (simp add: for_loop_Cons d1)
    also have "\<dots> \<longleftrightarrow> length ns \<le> length (stdin (snd (loop_body n d w)))"
      by (rule Cons.IH)
    also have "\<dots> \<longleftrightarrow> length (n # ns) \<le> length (stdin w)"
      by (simp add: c)
    finally show ?thesis .
  qed
qed

lemma dict_keys_simps [simp]:
  "dict_keys [] = []"
  "dict_keys ((k, v) # d) = k # dict_keys d"
  "dict_keys (d @ e) = dict_keys d @ dict_keys e"
  by (simp_all add: dict_keys_def)

lemma dict_values_simps [simp]:
  "dict_values [] = []"
  "dict_values ((k, v) # d) = v # dict_values d"
  "dict_values (d @ e) = dict_values d @ dict_values e"
  by (simp_all add: dict_values_def)

lemma dict_set_new: "k \<notin> set (dict_keys d) \<Longrightarrow> dict_set k v d = d @ [(k, v)]"
  by (induction d) auto

lemma for_loop_extends:
  assumes "fst (for_loop ns d w) = Inr d'" and "distinct ns" and "set ns \<inter> set (dict_keys d) = {}"
  shows "\<exists>ext. d' = d @ ext \<and> set (dict_keys ext) \<subseteq> set ns \<and> distinct (dict_keys ext) \<and>
           (\<forall>v \<in> set (dict_values ext). length v = 36)"
  using assms
proof (induction ns arbitrary: d w)
  case Nil
  then show ?case by simp
next
  case (Cons n ns)
  from Cons.prems(1) obtain d1 where d1: "fst (loop_body n d w) = Inr d1"
    and rest: "fst (for_loop ns d1 (snd (loop_body n d w))) = Inr d'"
    by (auto simp: for_loop_Cons split: sum.splits)
  from Cons.prems(3) have fresh: "n \<notin> set (dict_keys d)"
    by auto
  from loop_body_result [OF d1] fresh have step: "d1 = d \<or> (\<exists>u. length u = 36 \<and> d1 = d @ [(n, u)])"
    by (auto simp: dict_set_new)
  from step Cons.prems(2,3) have "set ns \<inter> set (dict_keys d1) = {}"
    by auto
  with Cons.IH [OF rest] Cons.prems(2) obtain ext where ext: "d' = d1 @ ext"
    "set (dict_keys ext) \<subseteq> set ns" "distinct (dict_keys ext)" "\<forall>v \<in> set (dict_values ext). length v = 36"
    by auto
  from step show ?case
  proof
    assume "d1 = d"
    with ext show ?thesis
      by (intro exI [of _ ext]) auto
  next
    assume "\<exists>u. length u = 36 \<and> d1 = d @ [(n, u)]"
    then obtain u where u: "length u = 36" "d1 = d @ [(n, u)]"
      by blast
    with ext Cons.prems(2) show ?thesis
      by (intro exI [of _ "(n, u) # ext"]) auto
  qed
qed

lemma for_loop_take_prefix:
  assumes "fst (for_loop (take k ns) d w) = Inr d'" and "j \<le> k"
    and "distinct ns" and "set ns \<inter> set (dict_keys d) = {}"
  shows "\<exists>dj. fst (for_loop (take j ns) d w) = Inr dj \<and> prefix dj d'"
proof -
  have split: "take k ns = take j ns @ take (k - j) (drop j ns)"
    using assms(2) by (metis le_add_diff_inverse take_add)
  from assms(1) obtain dj where dj: "fst (for_loop (take j ns) d w) = Inr dj"
    and rest: "fst (for_loop (take (k - j) (drop j ns)) dj (snd (for_loop (take j ns) d w))) = Inr d'"
    unfolding split for_loop_append by (auto split: sum.splits)
  from assms(3) have dis: "distinct (take j ns)" "distinct (take (k - j) (drop j ns))"
    by simp_all
  from assms(4) have "set (take j ns) \<inter> set (dict_keys d) = {}"
    using set_take_subset [of j ns] by blast
  from for_loop_extends [OF dj dis(1) this] obtain e1 where e1: "dj = d @ e1"
    "set (dict_keys e1) \<subseteq> set (take j ns)"
    by blast
  have "set (take j ns) \<inter> set (drop j ns) = {}"
    using assms(3) by (metis append_take_drop_id distinct_append)
  moreover have "set (take (k - j) (drop j ns)) \<subseteq> set (drop j ns)"
    by (rule set_take_subset)
  moreover have "set (drop j ns) \<subseteq> set ns"
    by (rule set_drop_subset)
  ultimately have "set (take (k - j) (drop j ns)) \<inter> set (dict_keys dj) = {}"
    using e1 assms(4) by auto
  from for_loop_extends [OF rest dis(2) this] obtain e2 where "d' = dj @ e2"
    by blast
  then have "prefix dj d'"
    by simp
  with dj show ?thesis by blast
qed

lemma for_loop_chain:
  assumes "fst (for_loop ns d w) = Inr d'"
  shows "\<exists>sts. length sts = Suc (length ns) \<and> sts ! 0 = (d, w) \<and>
           sts ! length ns = (d', snd (for_loop ns d w)) \<and>
           (\<forall>i<length ns. loop_body (ns ! i) (fst (sts ! i)) (snd (sts ! i)) =
                             (Inr (fst (sts ! Suc i)), snd (sts ! Suc i)))"
  using assms
proof (induction ns arbitrary: d w)
  case Nil
  then show ?case
    by (intro exI [of _ "[(d, w)]"]) simp
next
  case (Cons n ns)
  from Cons.prems obtain d1 where d1: "fst (loop_body n d w) = Inr d1"
    and rest: "fst (for_loop ns d1 (snd (loop_body n d w))) = Inr d'"
    by (auto simp: for_loop_Cons split: sum.splits)
  define w1 where "w1 = snd (loop_body n d w)"
  from d1 have body: "loop_body n d w = (Inr d1, w1)"
    by (simp add: w1_def prod_eq_iff)
  from Cons.IH [OF rest] obtain sts where sts: "length sts = Suc (length ns)"
    "sts ! 0 = (d1, w1)" "sts ! length ns = (d', snd (for_loop ns d1 w1))"
    "\<forall>i<length ns. loop_body (ns ! i) (fst (sts ! i)) (snd (sts ! i)) =
                             (Inr (fst (sts ! Suc i)), snd (sts ! Suc i))"
    unfolding w1_def by blast
  have "\<forall>i<length (n # ns). loop_body ((n # ns) ! i) (fst (((d, w) # sts) ! i)) (snd (((d, w) # sts) ! i)) =
                             (Inr (fst (((d, w) # sts) ! Suc i)), snd (((d, w) # sts) ! Suc i))"
  proof (intro allI impI)
    fix i
    assume "i < length (n # ns)"
    then show "loop_body ((n # ns) ! i) (fst (((d, w) # sts) ! i)) (snd (((d, w) # sts) ! i)) =
                             (Inr (fst (((d, w) # sts) ! Suc i)), snd (((d, w) # sts) ! Suc i))"
      using sts(2,4) body by (cases i) simp_all
  qed
  moreover have "((d, w) # sts) ! length (n # ns) = (d', snd (for_loop (n # ns) d w))"
    using sts(3) d1 by (simp add: for_loop_Cons w1_def)
  ultimately show ?case
    using sts(1) by (intro exI [of _ "(d, w) # sts"]) simp
qed

lemma for_loop_agree:
  assumes "stdin w1 = stdin w2"
    and "\<forall>i<length ns. clipboard w1 (pastes w1 + i) = clipboard w2 (pastes w2 + i)"
  shows "fst (for_loop ns d w1) = fst (for_loop ns d w2)"
  using assms
proof (induction ns arbitrary: d w1 w2)
  case Nil
  then show ?case by simp
next
  case (Cons n ns)
  from Cons.prems(2) have c0: "clipboard w1 (pastes w1) = clipboard w2 (pastes w2)"
    by force
  with Cons.prems(1) have fst_eq: "fst (loop_body n d w1) = fst (loop_body n d w2)"
    by (auto simp: loop_body_fst split: list.split)
  show ?case
  proof (cases "fst (loop_body n d w1)")
    case (Inl e)
    moreover from Inl fst_eq have "fst (loop_body n d w2) = Inl e"
      by simp
    ultimately show ?thesis
      by (simp add: for_loop_Cons)
  next
    case (Inr d1)
    let ?v1 = "snd (loop_body n d w1)" and ?v2 = "snd (loop_body n d w2)"
    have "stdin ?v1 = stdin ?v2"
      using Cons.prems(1) by simp
    moreover have "\<forall>i<length ns. clipboard ?v1 (pastes ?v1 + i) = clipboard ?v2 (pastes ?v2 + i)"
    proof (intro allI impI)
      fix i
      assume i: "i < length ns"
      with Cons.prems(2) have "clipboard w1 (pastes w1 + i) = clipboard w2 (pastes w2 + i)"
        "clipboard w1 (pastes w1 + Suc i) = clipboard w2 (pastes w2 + Suc i)"
        by force+
      then show "clipboard ?v1 (pastes ?v1 + i) = clipboard ?v2 (pastes ?v2 + i)"
        using Cons.prems(1) by (simp add: loop_body_pastes split: list.split)
    qed
    ultimately have "fst (for_loop ns d1 ?v1) = fst (for_loop ns d1 ?v2)"
      by (rule Cons.IH)
    moreover from Inr fst_eq have "fst (loop_body n d w2) = Inr d1"
      by simp
    ultimately show ?thesis
      using Inr by (simp add: for_loop_Cons)
  qed
qed

section \<open>The catalog, the script as a whole and the sample sessions\<close>

lemma BITWIG_DEVICES_length: "length BITWIG_DEVICES = 24"
  by (simp add: BITWIG_DEVICES_def)

lemma BITWIG_DEVICES_distinct: "distinct BITWIG_DEVICES"
  by (simp add: BITWIG_DEVICES_def)

lemma nth_not_in_take: "distinct xs \<Longrightarrow> k < length xs \<Longrightarrow> xs ! k \<notin> set (take k xs)"
  by (metis in_set_conv_nth length_take min.strict_boundedE nat_neq_iff nth_eq_iff_index_eq
      nth_take)

lemma valid_uuid_length: "valid_uuid u \<longleftrightarrow> length u = 36"
  by (auto simp: valid_uuid_def)

lemma collect_snd:
  "snd (collect w) =
     (case fst (prologue w) of
        Inl e \<Rightarrow> snd (prologue w)
      | Inr u \<Rightarrow> snd (for_loop BITWIG_DEVICES [] (snd (prologue w))))"
  by (cases "prologue w") (simp add: collect_def split: sum.split)

lemma collect_fields [simp]:
  "clipboard (snd (collect w)) = clipboard w"
  "files (snd (collect w)) = files w"
  by (simp_all add: collect_snd split: sum.split)

lemma collect_prologue:
  assumes "fst (collect w) = Inr d"
  shows "fst (prologue w) = Inr ()"
    and "fst (for_loop BITWIG_DEVICES [] (snd (prologue w))) = Inr d"
    and "snd (collect w) = snd (for_loop BITWIG_DEVICES [] (snd (prologue w)))"
  using assms by (auto simp: collect_fst collect_snd split: sum.splits)

lemma epilogue_returns [simp]: "fst (epilogue d w) = Inr ()"
  by (simp add: epilogue_def py_prints_encodable)

lemma main_fst:
  "fst (main w) = (case fst (collect w) of Inl e \<Rightarrow> Inl e | Inr d \<Rightarrow> Inr ())"
  by (cases "collect w") (simp add: main_def split: sum.split)

lemma main_snd:
  "snd (main w) =
     (case fst (collect w) of
        Inl e \<Rightarrow> snd (collect w)
      | Inr d \<Rightarrow> snd (epilogue d (snd (collect w))))"
  by (cases "collect w") (simp add: main_def split: sum.split)

lemma epilogue_fields [simp]:
  "stdin (snd (epilogue d w)) = stdin w"
  "clipboard (snd (epilogue d w)) = clipboard w"
  "pastes (snd (epilogue d w)) = pastes w"
  "files (snd (epilogue d w)) = (files w)(output_file \<mapsto> json_dumps d)"
  "stdout (snd (epilogue d w)) =
     stdout w @ NL @ sym_check @ cps '' Saved '' @ cps (py_str (length d)) @ cps '' UUIDs to ''
       @ cps output_file @ NL @ json_dumps d @ NL"
  by (simp_all add: epilogue_def py_prints_encodable file_write_def)

text \<open>The script runs to its end exactly when the operator supplies all 25 lines.\<close>

lemma collect_returns_iff:
  "(\<exists>d. fst (collect w) = Inr d) \<longleftrightarrow> 25 \<le> length (stdin w)"
proof (cases "stdin w")
  case Nil
  then show ?thesis
    by (simp add: collect_fst prologue_fst)
next
  case (Cons l ls)
  then show ?thesis
    using for_loop_returns_iff [of BITWIG_DEVICES "[]" "snd (prologue w)"]
    by (simp add: collect_fst prologue_fst BITWIG_DEVICES_length)
qed

lemma collect_agree:
  assumes "stdin w1 = stdin w2"
    and "\<forall>i<length BITWIG_DEVICES. clipboard w1 (pastes w1 + i) = clipboard w2 (pastes w2 + i)"
  shows "fst (collect w1) = fst (collect w2)"
proof -
  have "fst (for_loop BITWIG_DEVICES [] (snd (prologue w1))) =
        fst (for_loop BITWIG_DEVICES [] (snd (prologue w2)))"
    using assms by (intro for_loop_agree) simp_all
  with assms(1) show ?thesis
    by (cases "stdin w2") (simp_all add: collect_fst prologue_fst)
qed

lemma sample_loop:
  "fst (for_loop BITWIG_DEVICES [] (snd (prologue (session sample_lines sample_clips)))) =
     Inr [(''EQ+'', uuid1), (''Delay+'', uuid2)]"
  using sample_collect by (simp add: collect_fst prologue_fst sample_lines_def)

lemma second_collect:
  "fst (collect ((session second_lines second_clips)\<lparr>files := fs\<rparr>)) = Inr [(''Polysynth'', uuid2)]"
  by (simp add: collect_fst prologue_fst BITWIG_DEVICES_def for_loop_Cons loop_body_fst
      loop_body_pastes second_lines_def second_clips_def clip_seq_def py_lower_eq_s
      sample_strips valid_uuid_length uuid_lengths)

section \<open>The JSON text\<close>

lemma join_Cons: "join sep (x # xs) = x @ concat (map (\<lambda>y. sep @ y) xs)"
  by (induction xs arbitrary: x) simp_all

lemma catalog_names_plain:
  "k \<in> set BITWIG_DEVICES \<Longrightarrow> py_encode_basestring_ascii (cps k) = [34] @ cps k @ [34]"
  unfolding BITWIG_DEVICES_def
  by (auto simp: py_encode_basestring_ascii_def json_escape_char_def cps_def)

lemma hex_digit_value:
  assumes "k < 16"
  shows "hex_value (of_char (''0123456789abcdef'' ! k)) = Some k"
proof -
  have "list_all (\<lambda>k. hex_value (of_char (''0123456789abcdef'' ! k)) = Some k) [0..<16]"
    by code_simp
  with assms show ?thesis
    by (simp add: list_all_iff)
qed

lemma div_mod_16:
  fixes m :: nat
  shows "16 * (m div 16) + m mod 16 = m"
  by simp

lemma hex4_value:
  fixes n :: nat
  assumes "n < 65536"
  shows "4096 * (n div 4096 mod 16) + 256 * (n div 256 mod 16) + 16 * (n div 16 mod 16) + n mod 16 = n"
proof -
  have a: "n div 16 div 16 = n div 256" "n div 256 div 16 = n div 4096"
    by (simp_all add: div_mult2_eq [symmetric])
  from assms have "n div 4096 < 16"
    by simp
  then have b: "n div 4096 mod 16 = n div 4096"
    by simp
  have "n = 16 * (n div 16) + n mod 16"
    by simp
  also have "n div 16 = 16 * (n div 256) + n div 16 mod 16"
    using div_mod_16 [of "n div 16"] a by simp
  also have "n div 256 = 16 * (n div 4096) + n div 256 mod 16"
    using div_mod_16 [of "n div 256"] a by simp
  finally show ?thesis
    using b by simp
qed

lemma append_singleton: "(@) [x] = (#) x"
  by (rule ext) simp

lemma append_pair: "(@) [x, y] = (#) x \<circ> (#) y"
  by (rule ext) simp

lemma json_unescape_hex4:
  assumes "n < 65536"
  shows "json_unescape (cps ([CHR 0x5C, CHR ''u''] @ hex4 n) @ rest) =
           map_option ((#) n) (json_unescape rest)"
proof -
  have "json_unescape (cps ([CHR 0x5C, CHR ''u''] @ hex4 n) @ rest) =
          map_option ((#) (4096 * (n div 4096 mod 16) + 256 * (n div 256 mod 16)
                            + 16 * (n div 16 mod 16) + n mod 16)) (json_unescape rest)"
    by (simp add: cps_def hex4_def hex_digit_value)
  then show ?thesis
    by (simp only: hex4_value [OF assms])
qed

declare json_unescape.simps(2) [simp del]

lemma json_unescape_escape:
  "json_unescape (json_escape_char c @ rest) = map_option ((@) (utf16_char c)) (json_unescape rest)"
proof -
  consider "c = 92 \<or> c = 34 \<or> c = 8 \<or> c = 12 \<or> c = 10 \<or> c = 13 \<or> c = 9"
    | "32 \<le> c" "c \<le> 126" "c \<noteq> 92" "c \<noteq> 34"
    | "c < 65536" "\<not> (32 \<le> c \<and> c \<le> 126)" "c \<notin> {92, 34, 8, 12, 10, 13, 9}"
    | "65536 \<le> c"
    by fastforce
  then show ?thesis
  proof cases
    case 1
    then show ?thesis
      by (auto simp: json_escape_char_def utf16_char_def cps_def json_unescape.simps(2)
          escape_value_def append_singleton)
  next
    case 2
    then show ?thesis
      by (auto simp: json_escape_char_def utf16_char_def json_unescape.simps(2)
          append_singleton)
  next
    case 3
    then have "json_escape_char c = cps ([CHR 0x5C, CHR ''u''] @ hex4 c)"
      by (auto simp: json_escape_char_def)
    with 3(1) show ?thesis
      by (simp only: json_unescape_hex4) (simp add: utf16_char_def append_singleton)
  next
    case 4
    let ?hi = "55296 + (c - 65536) div 1024 mod 1024" and ?lo = "56320 + (c - 65536) mod 1024"
    have hi: "?hi < 65536" and lo: "?lo < 65536"
      by simp_all
    from 4 have "json_escape_char c =
        cps ([CHR 0x5C, CHR ''u''] @ hex4 ?hi) @ cps ([CHR 0x5C, CHR ''u''] @ hex4 ?lo)"
      by (auto simp: json_escape_char_def cps_def)
    then have "json_unescape (json_escape_char c @ rest) =
        map_option ((#) ?hi) (map_option ((#) ?lo) (json_unescape rest))"
      by (simp only: append_assoc json_unescape_hex4 [OF hi] json_unescape_hex4 [OF lo])
    with 4 show ?thesis
      by (simp add: utf16_char_def append_pair option.map_comp)
  qed
qed

lemma json_unescape_concat:
  "json_unescape (concat (map json_escape_char v)) = Some (utf16 v)"
proof (induction v)
  case Nil
  then show ?case by (simp add: utf16_def)
next
  case (Cons c v)
  then show ?case
    by (simp add: json_unescape_escape utf16_def)
qed

lemma json_string_roundtrip:
  "json_string_units (py_encode_basestring_ascii v) = Some (utf16 v)"
  by (simp add: json_string_units_def py_encode_basestring_ascii_def json_unescape_concat
      butlast_append)

lemma json_dumps_catalog:
  assumes "set (dict_keys d) \<subseteq> set BITWIG_DEVICES"
  shows "json_dumps d = indented_json d"
proof (cases d)
  case Nil
  then show ?thesis
    by (simp add: json_dumps_def)
next
  case (Cons kv rest)
  have item: "json_item x = [34] @ cps (fst x) @ [34] @ cps '': '' @ py_encode_basestring_ascii (snd x)"
    if "x \<in> set d" for x
  proof -
    from that have "fst x \<in> set (dict_keys d)"
      by (simp add: dict_keys_def)
    with assms have "fst x \<in> set BITWIG_DEVICES"
      by blast
    then show ?thesis
      by (simp add: json_item_def catalog_names_plain)
  qed
  from item Cons
  have first: "json_item kv = [34] @ cps (fst kv) @ [34] @ cps '': '' @ py_encode_basestring_ascii (snd kv)"
    and others: "\<And>x. x \<in> set rest \<Longrightarrow>
      json_item x = [34] @ cps (fst x) @ [34] @ cps '': '' @ py_encode_basestring_ascii (snd x)"
    by simp_all
  show ?thesis
    unfolding json_dumps_def Cons
    by (simp add: join_Cons NL_def comp_def first others cong: map_cong)
qed

lemma sample_values_plain:
  "py_encode_basestring_ascii uuid1 = [34] @ uuid1 @ [34]"
  "py_encode_basestring_ascii uuid2 = [34] @ uuid2 @ [34]"
  by (simp_all add: py_encode_basestring_ascii_def json_escape_char_def uuid1_def uuid2_def cps_def)

lemma sample_values_utf16: "utf16 uuid1 = uuid1" "utf16 uuid2 = uuid2"
  by (simp_all add: utf16_def utf16_char_def uuid1_def uuid2_def cps_def)

section \<open>The dictionary at the end of the loop and the file written from it\<close>

lemma collect_keys:
  assumes "fst (collect w) = Inr d"
  shows "set (dict_keys d) \<subseteq> set BITWIG_DEVICES" and "distinct (dict_keys d)"
    and "length d \<le> 24"
proof -
  note c = collect_prologue [OF assms]
  from for_loop_extends [OF c(2) BITWIG_DEVICES_distinct]
  show keys: "set (dict_keys d) \<subseteq> set BITWIG_DEVICES" and dis: "distinct (dict_keys d)"
    by auto
  from dis have "length (dict_keys d) = card (set (dict_keys d))"
    by (simp add: distinct_card)
  also from keys have "\<dots> \<le> card (set BITWIG_DEVICES)"
    by (intro card_mono) simp_all
  also have "\<dots> \<le> length BITWIG_DEVICES"
    by (rule card_length)
  finally show "length d \<le> 24"
    by (simp add: dict_keys_def BITWIG_DEVICES_length)
qed

lemma py_str_two_digits:
  assumes "n < 100"
  shows "py_str n =
    (if n < 10 then [''0123456789'' ! n]
     else [''0123456789'' ! (n div 10), ''0123456789'' ! (n mod 10)])"
proof (cases "n < 10")
  case True
  then show ?thesis
    by (simp add: py_str.simps)
next
  case False
  with assms have "n div 10 < 10"
    by simp
  with False show ?thesis
    by (simp add: py_str.simps [of n] py_str.simps [of "n div 10"])
qed

lemma main_files:
  assumes "fst (collect w) = Inr d"
  shows "files (snd (main w)) = (files w)(output_file \<mapsto> indented_json d)"
  using assms json_dumps_catalog [OF collect_keys(1) [OF assms]] by (simp add: main_snd)

lemma utf16_cps: "utf16 (cps s) = cps s"
proof -
  have "utf16_char (of_char c) = [of_char c]" for c :: char
  proof -
    have "(of_char c :: nat) < 256"
      by simp
    then have "(of_char c :: nat) < 65536"
      by linarith
    then show ?thesis
      by (simp add: utf16_char_def)
  qed
  then show ?thesis
    by (induction s) (simp_all add: utf16_def cps_def)
qed

lemma literals_denote:
  assumes "set (dict_keys d) \<subseteq> set BITWIG_DEVICES" and "kv \<in> set d"
  shows "json_string_units ([34] @ cps (fst kv) @ [34]) = Some (cps (fst kv))"
    and "json_string_units (py_encode_basestring_ascii (snd kv)) = Some (utf16 (snd kv))"
proof -
  from assms have "fst kv \<in> set BITWIG_DEVICES"
    by (auto simp: dict_keys_def)
  then have "[34] @ cps (fst kv) @ [34] = py_encode_basestring_ascii (cps (fst kv))"
    by (simp add: catalog_names_plain)
  then show "json_string_units ([34] @ cps (fst kv) @ [34]) = Some (cps (fst kv))"
    by (simp only: json_string_roundtrip utf16_cps)
  show "json_string_units (py_encode_basestring_ascii (snd kv)) = Some (utf16 (snd kv))"
    by (rule json_string_roundtrip)
qed

section \<open>A text the console cannot encode\<close>

lemma surrogate_texts:
  "py_strip lone_surrogate_uuid = lone_surrogate_uuid" "length lone_surrogate_uuid = 36"
  "list_ex is_surrogate lone_surrogate_uuid"
  "py_strip lone_surrogate_text = lone_surrogate_text" "length lone_surrogate_text = 5"
  "list_ex is_surrogate lone_surrogate_text"
  by (simp_all add: py_strip_def py_isspace_def lone_surrogate_uuid_def lone_surrogate_text_def
      cps_def is_surrogate_def)

lemma surrogate_messages:
  "utf8_error (cps ''   '' @ sym_check @ cps '' Captured: '' @ lone_surrogate_uuid) =
     [CHR 0x27] @ ''utf-8'' @ [CHR 0x27] @ '' codec can'' @ [CHR 0x27] @ ''t encode character ''
       @ [CHR 0x27, CHR 0x5C] @ ''udc80'' @ [CHR 0x27]
       @ '' in position 15: surrogates not allowed''"
  "utf8_error (cps ''   '' @ sym_cross @ cps '' Invalid UUID format: '' @ lone_surrogate_text) =
     [CHR 0x27] @ ''utf-8'' @ [CHR 0x27] @ '' codec can'' @ [CHR 0x27] @ ''t encode character ''
       @ [CHR 0x27, CHR 0x5C] @ ''udc80'' @ [CHR 0x27]
       @ '' in position 26: surrogates not allowed''"
  by (simp_all add: utf8_error_def lone_surrogate_uuid_def lone_surrogate_text_def cps_def
      sym_check_def sym_cross_def is_surrogate_def hex4_def py_str.simps Let_def)

section \<open>What a pass of the loop does with the text it read\<close>

text \<open>
  What does hold for a capture in a run: at the head of the iteration for the \<open>k\<close>-th
  device, a trimmed text of length 36 extends the dictionary by exactly one entry, under a
  name that was not a key before; and the last line printed is the success message
  whenever the console can encode the text.
\<close>

lemma valid_capture_in_run:
  assumes "k < length BITWIG_DEVICES"
    and "for_loop (take k BITWIG_DEVICES) [] w0 = (Inr d, w)"
    and "stdin w = line # rest" and "py_lower line \<noteq> ''s''"
    and "clipboard w (pastes w) = Text t" and "length (py_strip t) = 36"
  shows "fst (loop_body (BITWIG_DEVICES ! k) d w) = Inr (d @ [(BITWIG_DEVICES ! k, py_strip t)])"
    and "BITWIG_DEVICES ! k \<notin> set (dict_keys d)"
    and "\<not> list_ex is_surrogate (py_strip t) \<Longrightarrow>
         stdout (snd (loop_body (BITWIG_DEVICES ! k) d w)) =
           stdout (snd (instructions (BITWIG_DEVICES ! k) w)) @ cps ''   > '' @
           cps ''   '' @ sym_check @ cps '' Captured: '' @ py_strip t @ NL"
proof -
  from assms(2) have "fst (for_loop (take k BITWIG_DEVICES) [] w0) = Inr d"
    by simp
  from for_loop_extends [OF this] BITWIG_DEVICES_distinct
  have "set (dict_keys d) \<subseteq> set (take k BITWIG_DEVICES)"
    by auto
  with nth_not_in_take [OF BITWIG_DEVICES_distinct assms(1)]
  show fresh: "BITWIG_DEVICES ! k \<notin> set (dict_keys d)"
    by blast
  with assms(3-6)
  show "fst (loop_body (BITWIG_DEVICES ! k) d w) = Inr (d @ [(BITWIG_DEVICES ! k, py_strip t)])"
    by (simp add: loop_body_fst valid_uuid_length dict_set_new)
  from assms(3-6)
  show "stdout (snd (loop_body (BITWIG_DEVICES ! k) d w)) =
           stdout (snd (instructions (BITWIG_DEVICES ! k) w)) @ cps ''   > '' @
           cps ''   '' @ sym_check @ cps '' Captured: '' @ py_strip t @ NL"
    if "\<not> list_ex is_surrogate (py_strip t)"
    using that by (simp add: loop_body_stdout valid_uuid_length)
qed

text \<open>
  What does hold for a text of another length: the dictionary stays as it is; and the last
  line printed is the invalid-format message, ending with the trimmed text, whenever the
  console can encode the text.
\<close>

lemma wrong_length_records_nothing:
  assumes "stdin w = line # rest" and "py_lower line \<noteq> ''s''"
    and "clipboard w (pastes w) = Text t" and "length (py_strip t) \<noteq> 36"
  shows "fst (loop_body n d w) = Inr d"
    and "\<not> list_ex is_surrogate (py_strip t) \<Longrightarrow>
         stdout (snd (loop_body n d w)) =
           stdout (snd (instructions n w)) @ cps ''   > '' @
           cps ''   '' @ sym_cross @ cps '' Invalid UUID format: '' @ py_strip t @ NL"
  using assms by (simp_all add: loop_body_fst loop_body_stdout valid_uuid_length)

section \<open>The claims of the specification\<close>

text \<open>
  C1, as the code has it. The line the operator typed is lowercased but not trimmed before
  it is compared with the skip token: when the lowercased line equals \<open>s\<close> (the line is
  \<open>s\<close> or \<open>S\<close>, nothing else), the loop body makes no call of \<open>pyperclip.paste()\<close>,
  leaves the dictionary as it is, raises nothing, has read exactly that one line, and the
  loop goes on with the next device.
\<close>

theorem skip_on_exact_token:
  assumes "stdin w = line # rest" and "py_lower line = ''s''"
  shows "(line = ''s'' \<or> line = ''S'') \<and>
         fst (loop_body n d w) = Inr d \<and>
         pastes (snd (loop_body n d w)) = pastes w \<and>
         stdin (snd (loop_body n d w)) = rest \<and>
         for_loop (n # ns) d w = for_loop ns d (snd (loop_body n d w))"
  using assms by (simp add: py_lower_eq_s [symmetric] loop_body_fst loop_body_pastes for_loop_Cons)

theorem skip_on_exact_token_witness:
  "stdin (session [''S'', ''go''] [Text uuid1]) = ''S'' # [''go''] \<and> py_lower ''S'' = ''s'' \<and>
   (''S'' = ''s'' \<or> ''S'' = ''S'') \<and>
   fst (loop_body ''EQ+'' [] (session [''S'', ''go''] [Text uuid1])) = Inr [] \<and>
   pastes (snd (loop_body ''EQ+'' [] (session [''S'', ''go''] [Text uuid1]))) =
     pastes (session [''S'', ''go''] [Text uuid1]) \<and>
   stdin (snd (loop_body ''EQ+'' [] (session [''S'', ''go''] [Text uuid1]))) = [''go''] \<and>
   for_loop (''EQ+'' # [''Polysynth'']) [] (session [''S'', ''go''] [Text uuid1]) =
     for_loop [''Polysynth''] [] (snd (loop_body ''EQ+'' [] (session [''S'', ''go''] [Text uuid1])))"
proof -
  have h1: "stdin (session [''S'', ''go''] [Text uuid1]) = ''S'' # [''go'']"
    by simp
  have h2: "py_lower ''S'' = ''s''"
    by (simp add: py_lower_eq_s)
  from skip_on_exact_token [OF h1 h2, of "''EQ+''" "[]" "[''Polysynth'']"] h1 h2
  show ?thesis
    by blast
qed

text \<open>
  The skip test does not trim. The operator types \<open>s\<close> followed by a space for the first
  device, with a valid identifier on the clipboard: trimmed, the line is \<open>s\<close>, which
  lowercased is the skip token, yet the clipboard is read once and the entry is recorded.
\<close>

theorem skip_token_is_not_trimmed_counterexample:
  "py_strip (cps ''s '') = cps ''s'' \<and> py_lower ''s'' = ''s'' \<and>
   pastes (snd (loop_body ''EQ+'' [] (session [''s ''] [Text uuid1]))) =
     Suc (pastes (session [''s ''] [Text uuid1])) \<and>
   fst (loop_body ''EQ+'' [] (session [''s ''] [Text uuid1])) = Inr [(''EQ+'', uuid1)]"
proof -
  have strip: "py_strip (cps ''s '') = cps ''s''" "py_strip uuid1 = uuid1"
    by (simp_all add: py_strip_def py_isspace_def uuid1_def cps_def)
  show ?thesis
    by (simp add: strip py_lower_eq_s loop_body_fst loop_body_pastes clip_seq_def valid_uuid_def
        uuid_lengths)
qed



text \<open>
  C4. Take the run after its prologue and any \<open>k\<close> up to 24; let \<open>d\<close> be the dictionary
  after the first \<open>k\<close> iterations. Its keys are names of the catalog (which has 24
  entries), no key occurs twice, and every value has length 36. Entries stay: the
  dictionary after any earlier number \<open>j\<close> of iterations is a prefix of \<open>d\<close>, so nothing
  added by then was removed or changed. At \<open>k = 24\<close>, \<open>d\<close> is the dictionary the script
  ends its loop with, the script ends without an exception, and the output file holds
  the object of \<open>d\<close> written out: one member for each entry, in order; read as JSON
  string literals, the key of each member denotes the entry's name and its value denotes
  the entry's value.
\<close>

theorem result_mapping_invariant:
  assumes "fst (prologue w0) = Inr ()" and "k \<le> length BITWIG_DEVICES"
    and "fst (for_loop (take k BITWIG_DEVICES) [] (snd (prologue w0))) = Inr d"
  shows "set (dict_keys d) \<subseteq> set BITWIG_DEVICES \<and> distinct (dict_keys d) \<and>
         (\<forall>v \<in> set (dict_values d). length v = 36) \<and>
         length BITWIG_DEVICES = 24 \<and>
         (\<forall>j\<le>k. \<exists>dj. fst (for_loop (take j BITWIG_DEVICES) [] (snd (prologue w0))) = Inr dj \<and>
                       prefix dj d) \<and>
         (k = length BITWIG_DEVICES \<longrightarrow>
            fst (collect w0) = Inr d \<and> fst (main w0) = Inr () \<and>
            files (snd (main w0)) output_file = Some (indented_json d) \<and>
            (\<forall>kv \<in> set d.
               json_string_units ([34] @ cps (fst kv) @ [34]) = Some (cps (fst kv)) \<and>
               json_string_units (py_encode_basestring_ascii (snd kv)) = Some (utf16 (snd kv))))"
proof -
  have dis: "distinct (take k BITWIG_DEVICES)"
    using BITWIG_DEVICES_distinct by simp
  from for_loop_extends [OF assms(3) dis]
  have inv: "set (dict_keys d) \<subseteq> set (take k BITWIG_DEVICES)" "distinct (dict_keys d)"
    "\<forall>v \<in> set (dict_values d). length v = 36"
    by auto
  from inv(1) have keys: "set (dict_keys d) \<subseteq> set BITWIG_DEVICES"
    using set_take_subset [of k BITWIG_DEVICES] by blast
  have mono: "\<exists>dj. fst (for_loop (take j BITWIG_DEVICES) [] (snd (prologue w0))) = Inr dj \<and> prefix dj d"
    if "j \<le> k" for j
    using for_loop_take_prefix [OF assms(3) that BITWIG_DEVICES_distinct] by simp
  have final: "fst (collect w0) = Inr d \<and> fst (main w0) = Inr () \<and>
               files (snd (main w0)) output_file = Some (indented_json d)"
    if "k = length BITWIG_DEVICES"
  proof -
    from that assms(1,3) have c: "fst (collect w0) = Inr d"
      by (simp add: collect_fst)
    with main_files [OF c] show ?thesis
      by (simp add: main_fst)
  qed
  from keys inv(2,3) mono final literals_denote [OF keys] show ?thesis
    by (simp add: BITWIG_DEVICES_length)
qed

theorem result_mapping_invariant_witness:
  "fst (prologue (session sample_lines sample_clips)) = Inr () \<and>
   (24::nat) \<le> length BITWIG_DEVICES \<and>
   fst (for_loop (take 24 BITWIG_DEVICES) [] (snd (prologue (session sample_lines sample_clips)))) =
     Inr [(''EQ+'', uuid1), (''Delay+'', uuid2)] \<and>
   set (dict_keys [(''EQ+'', uuid1), (''Delay+'', uuid2)]) \<subseteq> set BITWIG_DEVICES \<and>
   distinct (dict_keys [(''EQ+'', uuid1), (''Delay+'', uuid2)]) \<and>
   length uuid1 = 36 \<and> length uuid2 = 36 \<and>
   (\<exists>dj. fst (for_loop (take 5 BITWIG_DEVICES) []
                  (snd (prologue (session sample_lines sample_clips)))) = Inr dj \<and>
          prefix dj [(''EQ+'', uuid1), (''Delay+'', uuid2)]) \<and>
   files (snd (main (session sample_lines sample_clips))) output_file =
     Some (cps ''{'' @ [10] @
           cps ''  '' @ [34] @ cps ''EQ+'' @ [34] @ cps '': '' @ [34] @ uuid1 @ [34] @ cps '','' @ [10] @
           cps ''  '' @ [34] @ cps ''Delay+'' @ [34] @ cps '': '' @ [34] @ uuid2 @ [34] @ [10] @
           cps ''}'') \<and>
   json_string_units ([34] @ cps ''EQ+'' @ [34]) = Some (cps ''EQ+'') \<and>
   json_string_units ([34] @ uuid1 @ [34]) = Some uuid1"
proof -
  let ?s = "session sample_lines sample_clips"
  have h1: "fst (prologue ?s) = Inr ()"
    by (simp add: prologue_fst sample_lines_def)
  have h2: "(24::nat) \<le> length BITWIG_DEVICES"
    by (simp add: BITWIG_DEVICES_length)
  have h3: "fst (for_loop (take 24 BITWIG_DEVICES) [] (snd (prologue ?s))) =
              Inr [(''EQ+'', uuid1), (''Delay+'', uuid2)]"
    using sample_loop by (simp add: BITWIG_DEVICES_length)
  note r = result_mapping_invariant [OF h1 h2 h3]
  from r have "\<forall>j\<le>24. \<exists>dj. fst (for_loop (take j BITWIG_DEVICES) [] (snd (prologue ?s))) = Inr dj \<and>
                prefix dj [(''EQ+'', uuid1), (''Delay+'', uuid2)]"
    by blast
  then have "\<exists>dj. fst (for_loop (take 5 BITWIG_DEVICES) [] (snd (prologue ?s))) = Inr dj \<and>
                prefix dj [(''EQ+'', uuid1), (''Delay+'', uuid2)]"
    by simp
  with r h1 h2 h3 show ?thesis
    by (simp add: BITWIG_DEVICES_length sample_values_plain sample_values_utf16)
qed

text \<open>
  C5. For any device, dictionary and world: if the line read is not a skip and the
  clipboard read raises an exception with detail \<open>e\<close>, then the body leaves the
  dictionary as it is, the last line printed is the warning, which ends with \<open>e\<close>, and the
  loop goes on with the next device. Whatever the clipboard does, the body raises nothing
  as long as there is a line to read, and the whole script ends without an exception
  whenever the operator supplies its 25 lines.
\<close>

theorem clipboard_failure_is_not_fatal:
  assumes "stdin w = line # rest" and "py_lower line \<noteq> ''s''"
    and "clipboard w (pastes w) = Failure e"
  shows "fst (loop_body n d w) = Inr d \<and>
         stdout (snd (loop_body n d w)) =
           stdout (snd (instructions n w)) @ cps ''   > '' @
           cps ''   '' @ sym_cross @ cps '' Error reading clipboard: '' @ cps e @ NL \<and>
         for_loop (n # ns) d w = for_loop ns d (snd (loop_body n d w)) \<and>
         (\<forall>c. \<exists>d'. fst (loop_body n d (w\<lparr>clipboard := c\<rparr>)) = Inr d') \<and>
         (\<forall>w0. 25 \<le> length (stdin w0) \<longrightarrow> fst (main w0) = Inr ())"
proof -
  have "\<exists>d'. fst (loop_body n d (w\<lparr>clipboard := c\<rparr>)) = Inr d'" for c
    using assms(1) by (simp add: loop_body_returns_iff)
  moreover have "fst (main w0) = Inr ()" if "25 \<le> length (stdin w0)" for w0
    using that collect_returns_iff [of w0] by (auto simp: main_fst)
  ultimately show ?thesis
    using assms by (simp add: loop_body_fst loop_body_stdout for_loop_Cons)
qed

theorem clipboard_failure_is_not_fatal_witness:
  "stdin (session [''go''] [Failure ''boom'']) = ''go'' # [] \<and> py_lower ''go'' \<noteq> ''s'' \<and>
   clipboard (session [''go''] [Failure ''boom'']) (pastes (session [''go''] [Failure ''boom'']))
     = Failure ''boom'' \<and>
   fst (loop_body ''EQ+'' [] (session [''go''] [Failure ''boom''])) = Inr [] \<and>
   stdout (snd (loop_body ''EQ+'' [] (session [''go''] [Failure ''boom'']))) =
     stdout (snd (instructions ''EQ+'' (session [''go''] [Failure ''boom'']))) @ cps ''   > '' @
     cps ''   '' @ sym_cross @ cps '' Error reading clipboard: '' @ cps ''boom'' @ NL \<and>
   for_loop (''EQ+'' # [''Polysynth'']) [] (session [''go''] [Failure ''boom'']) =
     for_loop [''Polysynth''] [] (snd (loop_body ''EQ+'' [] (session [''go''] [Failure ''boom'']))) \<and>
   25 \<le> length (stdin (session sample_lines sample_clips)) \<and>
   fst (main (session sample_lines sample_clips)) = Inr ()"
proof -
  let ?s = "session [''go''] [Failure ''boom'']"
  have h1: "stdin ?s = ''go'' # []"
    by simp
  have h2: "py_lower ''go'' \<noteq> ''s''"
    by (simp add: py_lower_eq_s)
  have h3: "clipboard ?s (pastes ?s) = Failure ''boom''"
    by (simp add: clip_seq_def)
  have h4: "25 \<le> length (stdin (session sample_lines sample_clips))"
    by (simp add: sample_lines_def)
  from clipboard_failure_is_not_fatal [OF h1 h2 h3, of "''EQ+''" "[]" "[''Polysynth'']"] h1 h2 h3 h4
  show ?thesis
    by blast
qed

text \<open>
  C6. If the script reaches the end of its loop with dictionary \<open>d\<close>, the loop was a chain
  of 25 states, from the empty dictionary and the world left by the prologue to \<open>d\<close> and
  the world at the end, in which the step from state \<open>i\<close> to state \<open>i + 1\<close> is one pass of
  the body on the \<open>i\<close>-th name of the catalog, for each \<open>i\<close> below 24, whatever that pass
  did. The catalog has 24 names, all different, and 25 lines have been read: one by the
  prologue and one by each pass.
\<close>

theorem every_device_visited_once_in_order:
  assumes "fst (collect w) = Inr d"
  shows "\<exists>sts. length sts = 25 \<and> sts ! 0 = ([], snd (prologue w)) \<and> sts ! 24 = (d, snd (collect w)) \<and>
           (\<forall>i<24. loop_body (BITWIG_DEVICES ! i) (fst (sts ! i)) (snd (sts ! i)) =
                      (Inr (fst (sts ! Suc i)), snd (sts ! Suc i))) \<and>
           length BITWIG_DEVICES = 24 \<and> distinct BITWIG_DEVICES \<and>
           stdin (snd (collect w)) = drop 25 (stdin w)"
proof -
  note c = collect_prologue [OF assms]
  from for_loop_chain [OF c(2)] obtain sts where sts:
    "length sts = Suc (length BITWIG_DEVICES)" "sts ! 0 = ([], snd (prologue w))"
    "sts ! length BITWIG_DEVICES = (d, snd (for_loop BITWIG_DEVICES [] (snd (prologue w))))"
    "\<forall>i<length BITWIG_DEVICES. loop_body (BITWIG_DEVICES ! i) (fst (sts ! i)) (snd (sts ! i)) =
                      (Inr (fst (sts ! Suc i)), snd (sts ! Suc i))"
    by blast
  have "stdin (snd (collect w)) = drop 25 (stdin w)"
    by (simp add: c(3) for_loop_stdin BITWIG_DEVICES_length tl_drop flip: drop_Suc)
  with sts show ?thesis
    unfolding c(3) BITWIG_DEVICES_length
    by (intro exI [of _ sts]) (simp add: BITWIG_DEVICES_distinct)
qed

theorem every_device_visited_once_in_order_witness:
  "fst (collect (session sample_lines sample_clips)) = Inr [(''EQ+'', uuid1), (''Delay+'', uuid2)] \<and>
   (\<exists>sts. length sts = 25 \<and> sts ! 0 = ([], snd (prologue (session sample_lines sample_clips))) \<and>
      sts ! 24 = ([(''EQ+'', uuid1), (''Delay+'', uuid2)], snd (collect (session sample_lines sample_clips))) \<and>
      (\<forall>i<24. loop_body (BITWIG_DEVICES ! i) (fst (sts ! i)) (snd (sts ! i)) =
                 (Inr (fst (sts ! Suc i)), snd (sts ! Suc i))) \<and>
      length BITWIG_DEVICES = 24 \<and> distinct BITWIG_DEVICES \<and>
      stdin (snd (collect (session sample_lines sample_clips))) =
        drop 25 (stdin (session sample_lines sample_clips)))"
  using every_device_visited_once_in_order [OF sample_collect] sample_collect
  by (rule conjI [rotated])

text \<open>
  C7. Let a run \<open>w2\<close> reach the end of its loop with dictionary \<open>d2\<close>, in a file system
  left behind by any earlier run \<open>w1\<close> of the script. After it the file
  \<open>bitwig_device_uuids.json\<close> holds the object of \<open>d2\<close> written out with two spaces of
  indentation, each key and value a JSON string literal denoting the entry's name and
  value, and the file system is the one \<open>w1\<close> started from with that one file replaced:
  nothing of what \<open>w1\<close> wrote remains. The dictionary \<open>d2\<close> itself does not depend on the
  files found.
\<close>

theorem output_file_is_overwritten:
  assumes "fst (collect w2) = Inr d2" and "files w2 = files (snd (main w1))"
  shows "files (snd (main w2)) output_file = Some (indented_json d2) \<and>
         files (snd (main w2)) = (files w1)(output_file \<mapsto> indented_json d2) \<and>
         (\<forall>fs. fst (collect (w2\<lparr>files := fs\<rparr>)) = Inr d2) \<and>
         output_file = ''bitwig_device_uuids.json'' \<and>
         (\<forall>kv \<in> set d2.
            json_string_units ([34] @ cps (fst kv) @ [34]) = Some (cps (fst kv)) \<and>
            json_string_units (py_encode_basestring_ascii (snd kv)) = Some (utf16 (snd kv)))"
proof -
  have "files (snd (main w1)) = files w1 \<or>
        (\<exists>t. files (snd (main w1)) = (files w1)(output_file \<mapsto> t))"
    by (cases "fst (collect w1)") (auto simp: main_snd)
  with assms main_files [OF assms(1)]
  have "files (snd (main w2)) = (files w1)(output_file \<mapsto> indented_json d2)"
    by auto
  moreover have "fst (collect (w2\<lparr>files := fs\<rparr>)) = Inr d2" for fs
    using collect_agree [of "w2\<lparr>files := fs\<rparr>" w2] assms(1) by simp
  ultimately show ?thesis
    using literals_denote [OF collect_keys(1) [OF assms(1)]] by (simp add: output_file_def)
qed

theorem output_file_is_overwritten_witness:
  "fst (collect ((session second_lines second_clips)
                   \<lparr>files := files (snd (main (session sample_lines sample_clips)))\<rparr>)) =
     Inr [(''Polysynth'', uuid2)] \<and>
   files ((session second_lines second_clips)
             \<lparr>files := files (snd (main (session sample_lines sample_clips)))\<rparr>) =
     files (snd (main (session sample_lines sample_clips))) \<and>
   files (snd (main (session sample_lines sample_clips))) output_file =
     Some (cps ''{'' @ [10] @
           cps ''  '' @ [34] @ cps ''EQ+'' @ [34] @ cps '': '' @ [34] @ uuid1 @ [34] @ cps '','' @ [10] @
           cps ''  '' @ [34] @ cps ''Delay+'' @ [34] @ cps '': '' @ [34] @ uuid2 @ [34] @ [10] @
           cps ''}'') \<and>
   files (snd (main ((session second_lines second_clips)
                       \<lparr>files := files (snd (main (session sample_lines sample_clips)))\<rparr>))) output_file =
     Some (cps ''{'' @ [10] @
           cps ''  '' @ [34] @ cps ''Polysynth'' @ [34] @ cps '': '' @ [34] @ uuid2 @ [34] @ [10] @
           cps ''}'') \<and>
   json_string_units ([34] @ cps ''Polysynth'' @ [34]) = Some (cps ''Polysynth'') \<and>
   json_string_units ([34] @ uuid2 @ [34]) = Some uuid2"
proof -
  let ?s1 = "session sample_lines sample_clips"
  let ?s2 = "(session second_lines second_clips)\<lparr>files := files (snd (main ?s1))\<rparr>"
  have h1: "fst (collect ?s2) = Inr [(''Polysynth'', uuid2)]"
    by (rule second_collect)
  have h2: "files ?s2 = files (snd (main ?s1))"
    by simp
  have first: "files (snd (main ?s1)) output_file =
      Some (cps ''{'' @ [10] @
           cps ''  '' @ [34] @ cps ''EQ+'' @ [34] @ cps '': '' @ [34] @ uuid1 @ [34] @ cps '','' @ [10] @
           cps ''  '' @ [34] @ cps ''Delay+'' @ [34] @ cps '': '' @ [34] @ uuid2 @ [34] @ [10] @
           cps ''}'')"
    using main_files [OF sample_collect] by (simp add: sample_values_plain)
  from output_file_is_overwritten [OF h1 h2] h1 h2 first show ?thesis
    by (simp add: sample_values_plain sample_values_utf16)
qed

text \<open>
  C8. If the script reaches the end of its loop with dictionary \<open>d\<close>, then after saving it
  prints, and prints last, an empty line, the line saying that it saved so many UUIDs to
  \<open>bitwig_device_uuids.json\<close>, the number being \<open>len(d)\<close> in decimal digits (one digit
  below 10, two from 10 on; there are at most 24 entries), and the object of \<open>d\<close> written
  out, the same text it wrote to the file, in which each key and value is a JSON string
  literal denoting the entry's name and value. The number is the number of keys of \<open>d\<close>.
\<close>

theorem summary_reports_count_and_mapping:
  assumes "fst (collect w) = Inr d"
  shows "stdout (snd (main w)) =
           stdout (snd (collect w)) @ NL @ sym_check @ cps '' Saved ''
             @ cps (if length d < 10 then [''0123456789'' ! length d]
                    else [''0123456789'' ! (length d div 10), ''0123456789'' ! (length d mod 10)])
             @ cps '' UUIDs to bitwig_device_uuids.json'' @ NL @ indented_json d @ NL \<and>
         files (snd (main w)) output_file = Some (indented_json d) \<and>
         length d = card (set (dict_keys d)) \<and> length d \<le> 24 \<and>
         (\<forall>kv \<in> set d.
            json_string_units ([34] @ cps (fst kv) @ [34]) = Some (cps (fst kv)) \<and>
            json_string_units (py_encode_basestring_ascii (snd kv)) = Some (utf16 (snd kv)))"
proof -
  note k = collect_keys [OF assms]
  from k(2) have "card (set (dict_keys d)) = length (dict_keys d)"
    by (rule distinct_card)
  then have card: "card (set (dict_keys d)) = length d"
    by (simp add: dict_keys_def)
  from k(3) have "py_str (length d) =
      (if length d < 10 then [''0123456789'' ! length d]
       else [''0123456789'' ! (length d div 10), ''0123456789'' ! (length d mod 10)])"
    by (intro py_str_two_digits) simp
  moreover have "cps '' UUIDs to '' @ cps ''bitwig_device_uuids.json'' =
      cps '' UUIDs to bitwig_device_uuids.json''"
    by (simp add: cps_def)
  ultimately show ?thesis
    using assms card k(3) main_files [OF assms] json_dumps_catalog [OF k(1)]
      literals_denote [OF k(1)]
    by (simp add: main_snd output_file_def)
qed

theorem summary_reports_count_and_mapping_witness:
  "fst (collect (session sample_lines sample_clips)) = Inr [(''EQ+'', uuid1), (''Delay+'', uuid2)] \<and>
   stdout (snd (main (session sample_lines sample_clips))) =
     stdout (snd (collect (session sample_lines sample_clips))) @ NL @ sym_check @ cps '' Saved ''
       @ cps ''2'' @ cps '' UUIDs to bitwig_device_uuids.json'' @ NL
       @ cps ''{'' @ [10] @
         cps ''  '' @ [34] @ cps ''EQ+'' @ [34] @ cps '': '' @ [34] @ uuid1 @ [34] @ cps '','' @ [10] @
         cps ''  '' @ [34] @ cps ''Delay+'' @ [34] @ cps '': '' @ [34] @ uuid2 @ [34] @ [10] @
         cps ''}'' @ NL \<and>
   files (snd (main (session sample_lines sample_clips))) output_file =
     Some (cps ''{'' @ [10] @
           cps ''  '' @ [34] @ cps ''EQ+'' @ [34] @ cps '': '' @ [34] @ uuid1 @ [34] @ cps '','' @ [10] @
           cps ''  '' @ [34] @ cps ''Delay+'' @ [34] @ cps '': '' @ [34] @ uuid2 @ [34] @ [10] @
           cps ''}'') \<and>
   length [(''EQ+'', uuid1), (''Delay+'', uuid2)] =
     card (set (dict_keys [(''EQ+'', uuid1), (''Delay+'', uuid2)])) \<and>
   json_string_units ([34] @ cps ''Delay+'' @ [34]) = Some (cps ''Delay+'') \<and>
   json_string_units ([34] @ uuid2 @ [34]) = Some uuid2"
  using summary_reports_count_and_mapping [OF sample_collect] sample_collect
  by (simp add: sample_values_plain sample_values_utf16)

text \<open>
  C9. Two runs whose operators type the same lines and whose first 24 clipboard reads
  have the same outcomes, in the same order, end alike: both raise the same exception or
  both leave the loop with the same dictionary, and in the second case both write the same
  text, the JSON text of that dictionary, to the output file. What was on the console or
  in the file system before plays no part.
\<close>

theorem same_inputs_same_output:
  assumes "stdin w1 = stdin w2"
    and "\<forall>i<length BITWIG_DEVICES. clipboard w1 (pastes w1 + i) = clipboard w2 (pastes w2 + i)"
  shows "fst (collect w1) = fst (collect w2) \<and> fst (main w1) = fst (main w2) \<and>
         (\<forall>d. fst (collect w1) = Inr d \<longrightarrow>
              files (snd (main w1)) output_file = Some (json_dumps d) \<and>
              files (snd (main w2)) output_file = Some (json_dumps d))"
proof -
  from assms have "fst (collect w1) = fst (collect w2)"
    by (rule collect_agree)
  then show ?thesis
    by (simp add: main_fst main_snd)
qed

theorem same_inputs_same_output_witness:
  "stdin (session sample_lines sample_clips) =
     stdin ((session sample_lines sample_clips)
              \<lparr>stdout := cps ''earlier output'', files := [output_file \<mapsto> cps ''{}'']\<rparr>) \<and>
   clipboard (session sample_lines sample_clips) =
     clipboard ((session sample_lines sample_clips)
                  \<lparr>stdout := cps ''earlier output'', files := [output_file \<mapsto> cps ''{}'']\<rparr>) \<and>
   pastes (session sample_lines sample_clips) =
     pastes ((session sample_lines sample_clips)
               \<lparr>stdout := cps ''earlier output'', files := [output_file \<mapsto> cps ''{}'']\<rparr>) \<and>
   fst (collect (session sample_lines sample_clips)) = Inr [(''EQ+'', uuid1), (''Delay+'', uuid2)] \<and>
   fst (collect ((session sample_lines sample_clips)
                   \<lparr>stdout := cps ''earlier output'', files := [output_file \<mapsto> cps ''{}'']\<rparr>)) =
     Inr [(''EQ+'', uuid1), (''Delay+'', uuid2)] \<and>
   files (snd (main (session sample_lines sample_clips))) output_file =
     Some (json_dumps [(''EQ+'', uuid1), (''Delay+'', uuid2)]) \<and>
   files (snd (main ((session sample_lines sample_clips)
                       \<lparr>stdout := cps ''earlier output'', files := [output_file \<mapsto> cps ''{}'']\<rparr>))) output_file =
     Some (json_dumps [(''EQ+'', uuid1), (''Delay+'', uuid2)])"
proof -
  let ?s1 = "session sample_lines sample_clips"
  let ?s2 = "?s1\<lparr>stdout := cps ''earlier output'', files := [output_file \<mapsto> cps ''{}'']\<rparr>"
  have h1: "stdin ?s1 = stdin ?s2"
    by simp
  have h2: "\<forall>i<length BITWIG_DEVICES. clipboard ?s1 (pastes ?s1 + i) = clipboard ?s2 (pastes ?s2 + i)"
    by simp
  from same_inputs_same_output [OF h1 h2] h1 sample_collect show ?thesis
    by (simp del: session_fields)
qed

text \<open>
  C10. The guard of the source, non-empty and of length 36, accepts exactly the strings
  that the check on the length alone accepts: for every string, and so for every trimmed
  clipboard text.
\<close>

theorem uuid_guard_is_length_check:
  "valid_uuid s = length_is_36 s \<and> valid_uuid (py_strip t) = length_is_36 (py_strip t)"
  by (auto simp: valid_uuid_def length_is_36_def)

end
